theory Spec2Isabelle
  imports Complex_Main
begin

section \<open>The EMG-driven Tello controller (tello\_emg\_control.py)\<close>

text \<open>
  Python floats are modelled as \<^typ>\<open>real\<close>: the literals \<open>0.2\<close>, \<open>1.0\<close> and
  \<open>500.0\<close> are the rationals they denote. Python's unbounded ints are \<^typ>\<open>int\<close>.
  The command names are the strings the source returns and compares. Where the rounding
  of the smoothing mean matters, the mean is also given as binary64 computes it
  (\<open>x_value_f64\<close> below).
\<close>

subsection \<open>The vehicle handle\<close>

text \<open>
  \<open>self.drone\<close> is an external object (a \<open>Tello\<close> or a \<open>TelloSimulator\<close>). The model
  records the method calls made on it, in the order they are made; every call is assumed
  to return normally.
\<close>

datatype drone_call =
    drone_takeoff
  | drone_land
  | drone_end
  | send_rc_control int int int int

datatype error = ValueError

subsection \<open>The controller object\<close>

text \<open>
  The fields of \<open>TelloEMGControl\<close> that the control paths read or write.
  \<open>emg_buffer\<close> is the numpy array of shape \<open>(emg_buffer_size, 2)\<close>: a list of rows,
  each row a pair. \<open>inlet\<close> is whether \<open>self.inlet\<close> holds a stream inlet (truthy).
\<close>

record tello_emg_control =
  emg_buffer :: "(real \<times> real) list"
  is_flying :: bool
  speed :: int
  inlet :: bool
  stream_type :: string
  running :: bool
  drone :: "drone_call list"

definition emg_buffer_size :: nat where
  "emg_buffer_size = 10"

text \<open>\<open>TelloEMGControl.__init__\<close>, after \<open>connect_to_drone\<close> has set the handle.\<close>

definition init :: tello_emg_control where
  "init = \<lparr> emg_buffer = replicate emg_buffer_size (0, 0),
            is_flying = False,
            speed = 30,
            inlet = False,
            stream_type = ''UNKNOWN'',
            running = True,
            drone = [] \<rparr>"

text \<open>A method call on \<open>self.drone\<close>.\<close>

definition call :: "drone_call \<Rightarrow> tello_emg_control \<Rightarrow> tello_emg_control" where
  "call c s = s\<lparr>drone := drone s @ [c]\<rparr>"

subsection \<open>numpy and builtins\<close>

text \<open>\<open>np.roll(buf, -1, axis=0)\<close>: every row moves up by one, the first row wraps to the end.\<close>

definition np_roll :: "'a list \<Rightarrow> 'a list" where
  "np_roll buf = rotate1 buf"

text \<open>\<open>buf[-1] = row\<close> on a buffer with at least one row.\<close>

definition set_last :: "'a list \<Rightarrow> 'a \<Rightarrow> 'a list" where
  "set_last buf row = buf[length buf - 1 := row]"

text \<open>
  \<open>np.mean\<close> of a one-dimensional array with at least one element, over the reals: the
  value \<open>np.mean\<close> returns when no addition and no division rounds. What binary64
  computes is \<open>f64_mean\<close> below.
\<close>

definition np_mean :: "real list \<Rightarrow> real" where
  "np_mean xs = sum_list xs / real (length xs)"

text \<open>Python's \<open>int()\<close> on a float: truncation toward zero.\<close>

definition py_int :: "real \<Rightarrow> int" where
  "py_int x = (if 0 \<le> x then \<lfloor>x\<rfloor> else \<lceil>x\<rceil>)"

text \<open>
  The right-hand side of \<open>self.emg_buffer[-1] = joystick_data\<close>, broadcast to a row of
  two columns: a sequence of two values is the row, a sequence of one value fills both
  columns, any other length raises \<open>ValueError\<close>.
\<close>

fun as_row :: "real list \<Rightarrow> error + (real \<times> real)" where
  "as_row [a, b] = Inr (a, b)"
| "as_row [a] = Inr (a, a)"
| "as_row _ = Inl ValueError"

subsection \<open>process\_joystick\<close>

text \<open>Lines 245 to 251: the threshold chain on \<open>x_value\<close>.\<close>

definition joystick_command :: "real \<Rightarrow> string \<times> real" where
  "joystick_command x_value =
     (if x_value < - (2 / 10) then (''backward'', min \<bar>x_value\<bar> 1)
      else if x_value > 2 / 10 then (''forward'', min \<bar>x_value\<bar> 1)
      else (''hover'', 0))"

text \<open>Lines 236 to 241: \<open>np.mean(self.emg_buffer, axis=0)[0]\<close>.\<close>

definition x_value :: "(real \<times> real) list \<Rightarrow> real" where
  "x_value buf = np_mean (map fst buf)"

definition process_joystick ::
  "tello_emg_control \<Rightarrow> real list \<Rightarrow> tello_emg_control \<times> (error + string \<times> real)" where
  "process_joystick s joystick_data =
     (let rolled = np_roll (emg_buffer s) in
      case as_row joystick_data of
        Inl e \<Rightarrow> (s\<lparr>emg_buffer := rolled\<rparr>, Inl e)
      | Inr row \<Rightarrow>
          (let buf = set_last rolled row in
           (s\<lparr>emg_buffer := buf\<rparr>, Inr (joystick_command (x_value buf)))))"

subsection \<open>process\_raw\_emg\<close>

text \<open>The argument is a bare number or a list (or tuple) of numbers.\<close>

datatype emg_data = Scalar real | Sequence "real list"

text \<open>Lines 273 to 278: the threshold chain on \<open>normalized\<close>.\<close>

definition raw_emg_command :: "real \<Rightarrow> string \<times> real" where
  "raw_emg_command normalized =
     (if normalized > 2 / 10 then (''forward'', min normalized 1)
      else if normalized < - (2 / 10) then (''backward'', min \<bar>normalized\<bar> 1)
      else (''hover'', 0))"

text \<open>Lines 267 to 270: \<open>np.mean(self.emg_buffer[:, 1]) / 500.0\<close>.\<close>

definition normalized :: "(real \<times> real) list \<Rightarrow> real" where
  "normalized buf = np_mean (map snd buf) / 500"

text \<open>
  Lines 257 to 260 choose \<open>value\<close>: element 0 of a non-empty sequence, otherwise the
  argument itself. An empty sequence is therefore stored as it is, and
  \<open>self.emg_buffer[-1] = [0, []]\<close> raises \<open>ValueError\<close> after the buffer was rolled.
\<close>

fun raw_value :: "emg_data \<Rightarrow> error + real" where
  "raw_value (Sequence (v # rest)) = Inr v"
| "raw_value (Scalar v) = Inr v"
| "raw_value (Sequence []) = Inl ValueError"

definition process_raw_emg ::
  "tello_emg_control \<Rightarrow> emg_data \<Rightarrow> tello_emg_control \<times> (error + string \<times> real)" where
  "process_raw_emg s emg =
     (let rolled = np_roll (emg_buffer s) in
      case raw_value emg of
        Inl e \<Rightarrow> (s\<lparr>emg_buffer := rolled\<rparr>, Inl e)
      | Inr v \<Rightarrow>
          (let buf = set_last rolled (0, v) in
           (s\<lparr>emg_buffer := buf\<rparr>, Inr (raw_emg_command (normalized buf)))))"

subsection \<open>emg\_control\_loop\<close>

text \<open>
  Lines 346 to 357 (310 to 321 in simulation mode): the scaled speed and the guarded
  \<open>send_rc_control\<close>. Nothing is sent when \<open>is_flying\<close> is false.
\<close>

definition dispatch :: "tello_emg_control \<Rightarrow> string \<Rightarrow> real \<Rightarrow> tello_emg_control" where
  "dispatch s command intensity =
     (let speed_scaled = py_int (real_of_int (speed s) * intensity) in
      if is_flying s then
        (if command = ''forward'' then call (send_rc_control 0 speed_scaled 0 0) s
         else if command = ''backward'' then call (send_rc_control 0 (- speed_scaled) 0 0) s
         else call (send_rc_control 0 0 0 0) s)
      else s)"

text \<open>
  One pass through the body of the LSL loop (lines 331 to 359). \<open>pulled\<close> is what
  \<open>pull_sample\<close> returned: \<open>None\<close> on a timeout, otherwise the channel values; a falsy
  sample is skipped. \<open>process_sample\<close> is the choice of lines 341 to 344. An exception
  raised while processing leaves the loop through the handler of line 363, which clears
  \<open>running\<close>.
\<close>

definition process_sample ::
  "tello_emg_control \<Rightarrow> real list \<Rightarrow> tello_emg_control \<times> (error + string \<times> real)" where
  "process_sample s sample =
     (if stream_type s = ''EMGJoystick'' \<or> length sample = 2
      then process_joystick s sample
      else process_raw_emg s (Sequence sample))"

definition lsl_iteration :: "tello_emg_control \<Rightarrow> real list option \<Rightarrow> tello_emg_control" where
  "lsl_iteration s pulled =
     (case pulled of
        None \<Rightarrow> s
      | Some sample \<Rightarrow>
          if sample = [] then s
          else
            (case process_sample s sample of
               (s', Inl e) \<Rightarrow> s'\<lparr>running := False\<rparr>
             | (s', Inr (command, intensity)) \<Rightarrow> dispatch s' command intensity))"

text \<open>
  \<open>while self.running\<close> over the samples the inlet delivers. The list is the finite
  prefix of the stream consumed so far; the loop itself has no other exit.
\<close>

fun lsl_loop :: "tello_emg_control \<Rightarrow> real list option list \<Rightarrow> tello_emg_control" where
  "lsl_loop s [] = s"
| "lsl_loop s (p # ps) = (if running s then lsl_loop (lsl_iteration s p) ps else s)"

text \<open>
  One pass through the body of the simulation loop (lines 296 to 323); the generated
  pair \<open>[x_value, y_value]\<close> is an input of the model.
\<close>

definition simulation_iteration ::
  "tello_emg_control \<Rightarrow> real \<times> real \<Rightarrow> tello_emg_control" where
  "simulation_iteration s xy =
     (case process_joystick s [fst xy, snd xy] of
        (s', Inl e) \<Rightarrow> s'
      | (s', Inr (command, intensity)) \<Rightarrow> dispatch s' command intensity)"

fun simulation_loop :: "tello_emg_control \<Rightarrow> (real \<times> real) list \<Rightarrow> tello_emg_control" where
  "simulation_loop s [] = s"
| "simulation_loop s (xy # rest) =
     (if running s then simulation_loop (simulation_iteration s xy) rest else s)"

definition emg_control_loop ::
  "tello_emg_control \<Rightarrow> (real \<times> real) list \<Rightarrow> real list option list \<Rightarrow> tello_emg_control" where
  "emg_control_loop s generated pulled =
     (if \<not> inlet s \<and> stream_type s \<noteq> ''SIMULATION'' then s
      else if stream_type s = ''SIMULATION'' then simulation_loop s generated
      else lsl_loop s pulled)"

subsection \<open>keyboard\_control\<close>

text \<open>
  What one frame of the keyboard loop reads from pygame: whether the event queue holds
  a \<open>pygame.QUIT\<close> event, and the entries of \<open>pygame.key.get_pressed()\<close> the loop looks at.
\<close>

record frame_input =
  QUIT :: bool
  K_t :: bool
  K_l :: bool
  K_r :: bool
  K_LSHIFT :: bool
  K_q :: bool

text \<open>The local variables of \<open>keyboard_control\<close> that survive a frame.\<close>

record rotation =
  is_rotating_clockwise :: bool
  is_rotating_counterclockwise :: bool

text \<open>Lines 402 to 408.\<close>

definition handle_events :: "frame_input \<Rightarrow> tello_emg_control \<Rightarrow> tello_emg_control" where
  "handle_events f s =
     (if QUIT f then (if is_flying s then call drone_land s else s)\<lparr>running := False\<rparr>
      else s)"

text \<open>Lines 413 to 427.\<close>

definition handle_takeoff_land :: "frame_input \<Rightarrow> tello_emg_control \<Rightarrow> tello_emg_control" where
  "handle_takeoff_land f s =
     (if K_t f \<and> \<not> is_flying s then (call drone_takeoff s)\<lparr>is_flying := True\<rparr>
      else if K_l f \<and> is_flying s then (call drone_land s)\<lparr>is_flying := False\<rparr>
      else s)"

text \<open>Lines 429 to 437.\<close>

definition handle_clockwise ::
  "frame_input \<Rightarrow> tello_emg_control \<times> rotation \<Rightarrow> tello_emg_control \<times> rotation" where
  "handle_clockwise f st =
     (case st of (s, rot) \<Rightarrow>
        if K_r f \<and> is_flying s
        then (call (send_rc_control 0 0 0 (speed s)) s, rot\<lparr>is_rotating_clockwise := True\<rparr>)
        else if is_rotating_clockwise rot
        then (call (send_rc_control 0 0 0 0) s, rot\<lparr>is_rotating_clockwise := False\<rparr>)
        else (s, rot))"

text \<open>Lines 439 to 447.\<close>

definition handle_counterclockwise ::
  "frame_input \<Rightarrow> tello_emg_control \<times> rotation \<Rightarrow> tello_emg_control \<times> rotation" where
  "handle_counterclockwise f st =
     (case st of (s, rot) \<Rightarrow>
        if (K_r f \<and> K_LSHIFT f) \<and> is_flying s
        then (call (send_rc_control 0 0 0 (- speed s)) s,
              rot\<lparr>is_rotating_counterclockwise := True\<rparr>)
        else if is_rotating_counterclockwise rot
        then (call (send_rc_control 0 0 0 0) s, rot\<lparr>is_rotating_counterclockwise := False\<rparr>)
        else (s, rot))"

text \<open>Lines 449 to 455. The \<open>break\<close> and the cleared \<open>running\<close> both end the loop.\<close>

definition handle_quit ::
  "frame_input \<Rightarrow> tello_emg_control \<times> rotation \<Rightarrow> tello_emg_control \<times> rotation" where
  "handle_quit f st =
     (case st of (s, rot) \<Rightarrow>
        if K_q f then ((if is_flying s then call drone_land s else s)\<lparr>running := False\<rparr>, rot)
        else (s, rot))"

text \<open>One pass through the body of \<open>while self.running\<close> (lines 401 to 458).\<close>

definition keyboard_frame ::
  "frame_input \<Rightarrow> tello_emg_control \<times> rotation \<Rightarrow> tello_emg_control \<times> rotation" where
  "keyboard_frame f st =
     (case st of (s, rot) \<Rightarrow>
        handle_quit f
          (handle_counterclockwise f
            (handle_clockwise f (handle_takeoff_land f (handle_events f s), rot))))"

fun keyboard_loop ::
  "tello_emg_control \<times> rotation \<Rightarrow> frame_input list \<Rightarrow> tello_emg_control \<times> rotation" where
  "keyboard_loop st [] = st"
| "keyboard_loop st (f # fs) =
     (if running (fst st) then keyboard_loop (keyboard_frame f st) fs else st)"

definition keyboard_control :: "tello_emg_control \<Rightarrow> frame_input list \<Rightarrow> tello_emg_control" where
  "keyboard_control s frames =
     fst (keyboard_loop
            (s, \<lparr>is_rotating_clockwise = False, is_rotating_counterclockwise = False\<rparr>) frames)"

subsection \<open>run\<close>

text \<open>
  The \<open>finally\<close> block of \<open>run\<close> (lines 515 to 522). \<open>self.drone\<close> is an object and so
  truthy.
\<close>

definition shutdown :: "tello_emg_control \<Rightarrow> tello_emg_control" where
  "shutdown s =
     (let s1 = s\<lparr>running := False\<rparr>;
          s2 = (if is_flying s1 then call drone_land s1 else s1)
      in call drone_end s2)"

text \<open>\<open>run\<close> from line 508 on: the keyboard loop on the main thread, then the cleanup.\<close>

definition run :: "tello_emg_control \<Rightarrow> frame_input list \<Rightarrow> tello_emg_control" where
  "run s frames = shutdown (keyboard_control s frames)"

subsection \<open>The smoothing mean in binary64\<close>

text \<open>
  The buffer holds IEEE 754 binary64 numbers and \<open>np.mean\<close> adds and divides in binary64,
  rounding to nearest with ties to even after every operation. \<open>rne\<close> is that rounding
  to an integer; \<open>f64_round x\<close> is the binary64 number nearest to \<open>x\<close> when the exponent
  range is unbounded above: 53 significant bits, exponent at least \<open>-1022\<close> (below that
  the subnormal spacing \<open>2^-1074\<close>).
\<close>

definition rne :: "real \<Rightarrow> int" where
  "rne y = (let f = \<lfloor>y\<rfloor>; d = y - of_int f in
            if d < 1 / 2 then f
            else if 1 / 2 < d then f + 1
            else if even f then f else f + 1)"

definition f64_exponent :: "real \<Rightarrow> int" where
  "f64_exponent x = max \<lfloor>log 2 \<bar>x\<bar>\<rfloor> (- 1022)"

definition f64_round :: "real \<Rightarrow> real" where
  "f64_round x =
     (if x = 0 then 0
      else (let q = 2 powr (of_int (f64_exponent x) - 52)
            in of_int (rne (x / q)) * q))"

text \<open>
  The result of a binary64 operation whose exact value is \<open>x\<close>: \<open>None\<close> when the rounded
  value leaves the finite range (the operation returns an infinity, and what is computed
  from it is an infinity or a NaN).
\<close>

definition f64 :: "real \<Rightarrow> real option" where
  "f64 x = (let r = f64_round x in if \<bar>r\<bar> < 2 ^ 1024 then Some r else None)"

text \<open>
  \<open>np.add.reduce\<close> along axis 0 of the C-ordered \<open>(10, 2)\<close> buffer: the accumulator starts
  as row 0 and the rows below are added to it one after the other.
\<close>

fun f64_sum :: "real \<Rightarrow> real list \<Rightarrow> real option" where
  "f64_sum acc [] = Some acc"
| "f64_sum acc (x # xs) =
     (case f64 (acc + x) of None \<Rightarrow> None | Some acc' \<Rightarrow> f64_sum acc' xs)"

text \<open>\<open>np.mean\<close>: the sum, then one division by the number of rows.\<close>

definition f64_mean :: "real list \<Rightarrow> real option" where
  "f64_mean xs =
     (case xs of
        [] \<Rightarrow> None
      | x # rest \<Rightarrow>
          (case f64_sum x rest of
             None \<Rightarrow> None
           | Some t \<Rightarrow> f64 (t / real (length xs))))"

text \<open>Lines 236 to 241 in binary64: \<open>np.mean(self.emg_buffer, axis=0)[0]\<close>.\<close>

definition x_value_f64 :: "(real \<times> real) list \<Rightarrow> real option" where
  "x_value_f64 buf = f64_mean (map fst buf)"

text \<open>
  The unit roundoff and half the subnormal spacing of binary64, and the factor by which
  the error of a running sum of \<open>k\<close> terms is bounded in the proofs below.
\<close>

definition f64_u :: real where
  "f64_u = 1 / 2 ^ 53"

definition f64_eta :: real where
  "f64_eta = 1 / 2 ^ 1075"

fun growth :: "nat \<Rightarrow> real" where
  "growth 0 = 0"
| "growth (Suc k) = 2 * growth k + real (Suc k)"

subsection \<open>Inputs used in the examples\<close>

definition no_keys :: frame_input where
  "no_keys = \<lparr>QUIT = False, K_t = False, K_l = False, K_r = False, K_LSHIFT = False,
              K_q = False\<rparr>"

definition still :: rotation where
  "still = \<lparr>is_rotating_clockwise = False, is_rotating_counterclockwise = False\<rparr>"

text \<open>The controller after a takeoff: airborne, nothing else changed.\<close>

definition airborne :: tello_emg_control where
  "airborne = init\<lparr>is_flying := True\<rparr>"

text \<open>The last \<open>n\<close> elements of a list (all of it when it is shorter).\<close>

definition last_n :: "nat \<Rightarrow> 'a list \<Rightarrow> 'a list" where
  "last_n n xs = drop (length xs - n) xs"

text \<open>Feeding two-channel samples \<open>[x, y]\<close> to \<open>process_joystick\<close>, one after the other.\<close>

fun observe :: "tello_emg_control \<Rightarrow> (real \<times> real) list \<Rightarrow> tello_emg_control" where
  "observe s [] = s"
| "observe s (xy # rest) = observe (fst (process_joystick s [fst xy, snd xy])) rest"

section \<open>The threshold chains\<close>



section \<open>What the signal path leaves alone\<close>

lemma dispatch_is_flying: "is_flying (dispatch s command intensity) = is_flying s"
  by (simp add: dispatch_def call_def Let_def)

lemma process_joystick_fields:
  "process_joystick s d = (s', r) \<Longrightarrow>
   is_flying s' = is_flying s \<and> drone s' = drone s \<and> speed s' = speed s"
  by (auto simp: process_joystick_def Let_def split: sum.splits)

lemma process_raw_emg_fields:
  "process_raw_emg s d = (s', r) \<Longrightarrow>
   is_flying s' = is_flying s \<and> drone s' = drone s \<and> speed s' = speed s"
  by (auto simp: process_raw_emg_def Let_def split: sum.splits)

lemma process_sample_fields:
  "process_sample s d = (s', r) \<Longrightarrow>
   is_flying s' = is_flying s \<and> drone s' = drone s \<and> speed s' = speed s"
  by (auto simp: process_sample_def process_joystick_fields process_raw_emg_fields
      split: if_splits)

lemma lsl_iteration_is_flying: "is_flying (lsl_iteration s p) = is_flying s"
  by (auto simp: lsl_iteration_def dispatch_is_flying dest: process_sample_fields
      split: option.splits prod.splits sum.splits)

lemma simulation_iteration_is_flying: "is_flying (simulation_iteration s xy) = is_flying s"
  by (auto simp: simulation_iteration_def dispatch_is_flying dest: process_joystick_fields
      split: prod.splits sum.splits)

lemma lsl_loop_is_flying: "is_flying (lsl_loop s ps) = is_flying s"
  by (induction s ps rule: lsl_loop.induct) (simp_all add: lsl_iteration_is_flying)

lemma simulation_loop_is_flying: "is_flying (simulation_loop s g) = is_flying s"
  by (induction s g rule: simulation_loop.induct)
    (simp_all add: simulation_iteration_is_flying)

lemma dispatch_grounded: "\<not> is_flying s \<Longrightarrow> dispatch s command intensity = s"
  by (simp add: dispatch_def)

section \<open>Dispatch while grounded\<close>

text \<open>
  C1, as stated: while grounded the dispatch step sends the zero vector. It does not: at
  the initial (grounded) controller a forward command of intensity 1 leaves the call
  record of the vehicle as it was, so no \<open>send_rc_control(0, 0, 0, 0)\<close> was made.
\<close>

theorem grounded_zero_vector_counterexample:
  "\<not> is_flying init
   \<and> drone (dispatch init ''forward'' 1) \<noteq> drone init @ [send_rc_control 0 0 0 0]"
  by (simp add: dispatch_def init_def)

text \<open>
  C1, amended: while grounded the dispatch step sends nothing at all, whatever the command
  and the intensity, and a whole pass of either loop body makes no call on the vehicle.
\<close>

theorem grounded_sends_nothing:
  assumes "\<not> is_flying s"
  shows "dispatch s command intensity = s
       \<and> drone (lsl_iteration s pulled) = drone s
       \<and> drone (simulation_iteration s xy) = drone s"
proof -
  have "drone (lsl_iteration s pulled) = drone s"
    using assms
    by (auto simp: lsl_iteration_def dispatch_grounded dest: process_sample_fields
        split: option.splits prod.splits sum.splits)
  moreover have "drone (simulation_iteration s xy) = drone s"
    using assms
    by (auto simp: simulation_iteration_def dispatch_grounded dest: process_joystick_fields
        split: prod.splits sum.splits)
  ultimately show ?thesis using assms by (simp add: dispatch_grounded)
qed

theorem grounded_sends_nothing_witness:
  "\<not> is_flying init
   \<and> dispatch init ''backward'' 1 = init
   \<and> drone (lsl_iteration init (Some [- 1, 0])) = drone init
   \<and> drone (simulation_iteration init (1, 0)) = drone init"
proof -
  have g: "\<not> is_flying init" by (simp add: init_def)
  show ?thesis
    using g grounded_sends_nothing [OF g, of "''backward''" 1 "Some [- 1, 0]" "(1, 0)"]
    by simp
qed

section \<open>The flight state under the signal loop\<close>

text \<open>
  C2. The EMG control loop never changes the flight state: whatever samples it processes,
  in LSL mode or in simulation mode, \<open>is_flying\<close> after the loop, and after every single
  pass of its body, is what it was before.
\<close>

theorem emg_control_loop_keeps_is_flying:
  "is_flying (emg_control_loop s generated pulled) = is_flying s
   \<and> is_flying (lsl_iteration s p) = is_flying s
   \<and> is_flying (simulation_iteration s xy) = is_flying s"
  by (simp add: emg_control_loop_def lsl_loop_is_flying simulation_loop_is_flying
      lsl_iteration_is_flying simulation_iteration_is_flying)

section \<open>Dispatch while airborne\<close>




section \<open>Quit while airborne\<close>

text \<open>
  C6, evaluated on the code. The controller is airborne and the only key held in the
  frame is \<open>q\<close>. The quit branch calls \<open>land()\<close> and leaves \<open>is_flying\<close> set (the landing
  branch of line 425 clears it, this one does not), so the cleanup of \<open>run\<close> calls \<open>land()\<close>
  a second time before \<open>end()\<close>.
\<close>

theorem quit_airborne_lands_twice:
  "drone (run airborne [no_keys\<lparr>K_q := True\<rparr>]) = [drone_land, drone_land, drone_end]"
  by (simp add: run_def shutdown_def keyboard_control_def keyboard_frame_def handle_quit_def
      handle_counterclockwise_def handle_clockwise_def handle_takeoff_land_def
      handle_events_def airborne_def init_def no_keys_def call_def)

section \<open>Takeoff and land on repetition\<close>

text \<open>
  C7. While airborne a held takeoff key changes nothing: the frame does exactly what it
  does without the key, and a frame with only that key held (no rotation pending) makes
  no call on the vehicle and leaves the controller as it was. The same holds for the
  land key while grounded.
\<close>

theorem takeoff_land_idempotent:
  "(is_flying s \<longrightarrow>
      keyboard_frame (f\<lparr>K_t := True\<rparr>) (s, rot) = keyboard_frame (f\<lparr>K_t := False\<rparr>) (s, rot)
    \<and> keyboard_frame (no_keys\<lparr>K_t := True\<rparr>) (s, still) = (s, still))
   \<and> (\<not> is_flying s \<longrightarrow>
      keyboard_frame (f\<lparr>K_l := True\<rparr>) (s, rot) = keyboard_frame (f\<lparr>K_l := False\<rparr>) (s, rot)
    \<and> keyboard_frame (no_keys\<lparr>K_l := True\<rparr>) (s, still) = (s, still))"
  by (simp add: keyboard_frame_def handle_quit_def handle_counterclockwise_def
      handle_clockwise_def handle_takeoff_land_def handle_events_def no_keys_def still_def
      call_def)

theorem takeoff_land_idempotent_witness:
  "is_flying airborne
   \<and> keyboard_frame (no_keys\<lparr>K_t := True\<rparr>) (airborne, still) = (airborne, still)
   \<and> \<not> is_flying init
   \<and> keyboard_frame (no_keys\<lparr>K_l := True\<rparr>) (init, still) = (init, still)"
proof -
  have a: "is_flying airborne" by (simp add: airborne_def init_def)
  have g: "\<not> is_flying init" by (simp add: init_def)
  have "keyboard_frame (no_keys\<lparr>K_t := True\<rparr>) (airborne, still) = (airborne, still)"
    using a takeoff_land_idempotent [of airborne no_keys still] by blast
  moreover have "keyboard_frame (no_keys\<lparr>K_l := True\<rparr>) (init, still) = (init, still)"
    using g takeoff_land_idempotent [of init no_keys still] by blast
  ultimately show ?thesis using a g by blast
qed

section \<open>Rotation frames\<close>

text \<open>
  C8, evaluated on the code. The controller is airborne; counter-clockwise rotation
  (\<open>r\<close> with the left shift key) is held for one frame and released for the next two.
  The clockwise branch tests \<open>keys[K_r]\<close> alone, so the frame in which counter-clockwise
  is held sends yaw \<open>+speed\<close> and then yaw \<open>-speed\<close>, and the first frame after the release
  sends two yaw-0 commands, one from each branch. The third frame sends nothing.
\<close>

theorem counterclockwise_frames_calls:
  "drone (keyboard_control airborne
            [no_keys\<lparr>K_r := True, K_LSHIFT := True\<rparr>, no_keys, no_keys])
   = [send_rc_control 0 0 0 30, send_rc_control 0 0 0 (- 30),
      send_rc_control 0 0 0 0, send_rc_control 0 0 0 0]"
  by (simp add: keyboard_control_def keyboard_frame_def handle_quit_def
      handle_counterclockwise_def handle_clockwise_def handle_takeoff_land_def
      handle_events_def airborne_def init_def no_keys_def call_def)

section \<open>The smoothing buffer\<close>

lemma set_last_np_roll: "buf \<noteq> [] \<Longrightarrow> set_last (np_roll buf) row = tl buf @ [row]"
  by (cases buf) (simp_all add: set_last_def np_roll_def)

lemma process_joystick_pair:
  "emg_buffer s \<noteq> [] \<Longrightarrow>
   process_joystick s [x, y]
   = (s\<lparr>emg_buffer := drop 1 (emg_buffer s @ [(x, y)])\<rparr>,
      Inr (joystick_command (x_value (drop 1 (emg_buffer s @ [(x, y)])))))"
  by (cases "emg_buffer s") (simp_all add: process_joystick_def set_last_np_roll Let_def)

lemma observe_fields:
  "is_flying (observe s xys) = is_flying s \<and> speed (observe s xys) = speed s
   \<and> drone (observe s xys) = drone s"
  by (induction s xys rule: observe.induct) (auto simp: process_joystick_def Let_def)

text \<open>After any number of samples the buffer holds the last rows of what was pushed.\<close>

lemma observe_buffer:
  "emg_buffer s \<noteq> [] \<Longrightarrow>
   emg_buffer (observe s xys) = drop (length xys) (emg_buffer s @ xys)"
proof (induction xys arbitrary: s)
  case Nil
  then show ?case by simp
next
  case (Cons xy rest)
  let ?s1 = "fst (process_joystick s [fst xy, snd xy])"
  have b1: "emg_buffer ?s1 = drop 1 (emg_buffer s @ [xy])"
    using process_joystick_pair [OF Cons.prems, of "fst xy" "snd xy"] by simp
  obtain r b where b: "emg_buffer s = r # b"
    using Cons.prems by (cases "emg_buffer s") auto
  have ne: "emg_buffer ?s1 \<noteq> []" using b1 b by simp
  have "emg_buffer (observe s (xy # rest)) = drop (length rest) (emg_buffer ?s1 @ rest)"
    using Cons.IH [OF ne] by simp
  also have "\<dots> = drop (length (xy # rest)) (emg_buffer s @ xy # rest)"
    using b1 b by simp
  finally show ?case .
qed

lemma sum_list_lower:
  "\<forall>x \<in> set xs. a \<le> x \<Longrightarrow> a * real (length xs) \<le> sum_list xs"
proof (induction xs)
  case Nil
  then show ?case by simp
next
  case (Cons y ys)
  then have "a \<le> y" "a * real (length ys) \<le> sum_list ys" by simp_all
  then show ?case by (simp add: algebra_simps)
qed

lemma sum_list_upper:
  "\<forall>x \<in> set xs. x \<le> a \<Longrightarrow> sum_list xs \<le> a * real (length xs)"
proof (induction xs)
  case Nil
  then show ?case by simp
next
  case (Cons y ys)
  then have "y \<le> a" "sum_list ys \<le> a * real (length ys)" by simp_all
  then show ?case by (simp add: algebra_simps)
qed

lemma np_mean_bounds:
  assumes "xs \<noteq> []"
  shows "Min (set xs) \<le> np_mean xs \<and> np_mean xs \<le> Max (set xs)"
proof -
  have len: "0 < real (length xs)" using assms by simp
  have lo: "Min (set xs) * real (length xs) \<le> sum_list xs"
    by (rule sum_list_lower) simp
  have hi: "sum_list xs \<le> Max (set xs) * real (length xs)"
    by (rule sum_list_upper) simp
  show ?thesis
    using lo hi len by (simp add: np_mean_def pos_le_divide_eq pos_divide_le_eq)
qed

lemma np_mean_between:
  assumes "xs \<noteq> []" "set xs \<subseteq> S" "finite S"
  shows "Min S \<le> np_mean xs \<and> np_mean xs \<le> Max S"
proof -
  have ne: "set xs \<noteq> {}" using assms(1) by simp
  have "Min S \<le> Min (set xs)" using assms ne by (intro Min_antimono) auto
  moreover have "Max (set xs) \<le> Max S" using assms ne by (intro Max_mono) auto
  ultimately show ?thesis using np_mean_bounds [OF assms(1)] by linarith
qed

lemma np_mean_replicate: "0 < n \<Longrightarrow> np_mean (replicate n a) = a"
  by (simp add: np_mean_def sum_list_replicate)

lemma window_values:
  "set (map fst (drop (length xys) (replicate emg_buffer_size (0::real, 0::real) @ xys)))
   \<subseteq> set (last_n emg_buffer_size (map fst xys))
       \<union> (if length xys < emg_buffer_size then {0} else {})"
proof (cases "length xys < emg_buffer_size")
  case True
  then show ?thesis
    by (auto simp: last_n_def dest: in_set_dropD)
next
  case False
  then show ?thesis
    by (auto simp: last_n_def drop_map)
qed

text \<open>
  C4, as stated: after \<open>count \<ge> 1\<close> samples the smoothed value lies between the minimum
  and the maximum of the last \<open>min(N, count)\<close> observed values. The buffer starts as ten
  rows of zeros and the mean is always taken over all ten rows: after the single sample
  \<open>[1.0, 0.0]\<close> the smoothed value is 0.1, below the only observed value 1.
\<close>

theorem smoothed_hull_counterexample:
  "\<not> (Min (set (last_n emg_buffer_size (map fst [(1, 0)])))
        \<le> x_value (emg_buffer (observe init [(1, 0)])))"
  by (simp add: last_n_def process_joystick_def init_def emg_buffer_size_def np_roll_def
      set_last_def x_value_def np_mean_def numeral_eq_Suc)

section \<open>The smoothing mean in binary64\<close>

subsection \<open>One rounding\<close>

lemma rne_error: "\<bar>of_int (rne y) - y\<bar> \<le> 1 / 2"
  unfolding rne_def Let_def by (auto simp: abs_le_iff)

lemma floor_log_powr: "0 < a \<Longrightarrow> (2::real) powr (of_int \<lfloor>log 2 a\<rfloor>) \<le> a"
proof -
  assume a: "0 < a"
  have "(2::real) powr (of_int \<lfloor>log 2 a\<rfloor>) \<le> 2 powr (log 2 a)"
    by (rule powr_mono) simp_all
  then show ?thesis using a by simp
qed

lemma f64_round_error: "\<bar>f64_round x - x\<bar> \<le> f64_u * \<bar>x\<bar> + f64_eta"
proof (cases "x = 0")
  case True
  then show ?thesis by (simp add: f64_round_def f64_u_def f64_eta_def)
next
  case False
  define e where "e = f64_exponent x"
  define q :: real where "q = 2 powr (of_int e - 52)"
  have qpos: "0 < q" by (simp add: q_def)
  have r: "f64_round x = of_int (rne (x / q)) * q"
    using False by (simp add: f64_round_def e_def q_def Let_def)
  have "f64_round x - x = (of_int (rne (x / q)) - x / q) * q"
    using qpos by (simp add: r algebra_simps)
  then have "\<bar>f64_round x - x\<bar> = \<bar>of_int (rne (x / q)) - x / q\<bar> * q"
    using qpos by (simp add: abs_mult)
  also have "\<dots> \<le> (1 / 2) * q"
    using rne_error [of "x / q"] qpos by (intro mult_right_mono) simp_all
  finally have half: "\<bar>f64_round x - x\<bar> \<le> q / 2" by simp
  have q2: "q / 2 = 2 powr (of_int e - 53)"
  proof -
    have "(2::real) powr (of_int e - 53) = 2 powr ((of_int e - 52) + (- 1))" by simp
    also have "\<dots> = q * 2 powr (- 1)" unfolding q_def by (rule powr_add)
    also have "\<dots> = q / 2" by (simp add: powr_neg_one)
    finally show ?thesis by simp
  qed
  show ?thesis
  proof (cases "- 1022 \<le> \<lfloor>log 2 \<bar>x\<bar>\<rfloor>")
    case True
    then have e: "e = \<lfloor>log 2 \<bar>x\<bar>\<rfloor>" by (simp add: e_def f64_exponent_def)
    have "(2::real) powr (of_int e - 53) = 2 powr (of_int e) * 2 powr (- 53)"
      using powr_add [of 2 "of_int e" "- 53"] by simp
    also have "(2::real) powr (- 53) = f64_u"
      by (simp add: f64_u_def powr_minus_divide)
    finally have "q / 2 = 2 powr (of_int e) * f64_u" using q2 by simp
    also have "\<dots> \<le> \<bar>x\<bar> * f64_u"
      using floor_log_powr [of "\<bar>x\<bar>"] False
      by (intro mult_right_mono) (simp_all add: e f64_u_def)
    finally have "q / 2 \<le> f64_u * \<bar>x\<bar>" by (simp add: mult.commute)
    moreover have "0 \<le> f64_eta" by (simp add: f64_eta_def)
    ultimately show ?thesis using half by linarith
  next
    case False
    then have e: "e = - 1022" by (simp add: e_def f64_exponent_def)
    have "q / 2 = (2::real) powr (- 1075)" using q2 by (simp add: e)
    also have "\<dots> = f64_eta"
      by (simp add: f64_eta_def powr_minus_divide)
    finally have "q / 2 = f64_eta" .
    moreover have "0 \<le> f64_u * \<bar>x\<bar>" by (simp add: f64_u_def)
    ultimately show ?thesis using half by linarith
  qed
qed


lemma f64_u_bounds: "0 \<le> f64_u" "f64_u \<le> 1" "2036 * f64_u \<le> 1" "512 * f64_u = 1 / 2 ^ 44"
  by (simp_all add: f64_u_def)

lemma f64_eta_bounds: "0 \<le> f64_eta" "f64_eta \<le> 1" "512 * f64_eta = 1 / 2 ^ 1066"
  by (simp_all add: f64_eta_def)

lemma f64_finite:
  assumes "\<bar>x\<bar> \<le> 2 ^ 1022"
  shows "\<exists>r. f64 x = Some r \<and> \<bar>r - x\<bar> \<le> f64_u * \<bar>x\<bar> + f64_eta"
proof -
  have e: "\<bar>f64_round x - x\<bar> \<le> f64_u * \<bar>x\<bar> + f64_eta" by (rule f64_round_error)
  have "f64_u * \<bar>x\<bar> \<le> 1 * \<bar>x\<bar>"
    using f64_u_bounds(2) by (intro mult_right_mono) simp_all
  then have "\<bar>f64_round x\<bar> \<le> 2 * \<bar>x\<bar> + 1"
    using e f64_eta_bounds(2) by linarith
  also have "\<dots> \<le> 2 * 2 ^ 1022 + 1" using assms by simp
  also have "\<dots> < (2::real) ^ 1024" by simp
  finally have "\<bar>f64_round x\<bar> < 2 ^ 1024" .
  then show ?thesis using e by (simp add: f64_def)
qed

lemma growth_nonneg: "0 \<le> growth k"
  by (induction k) simp_all

lemma growth_mono: "growth k \<le> growth (k + m)"
proof (induction m)
  case 0
  then show ?case by simp
next
  case (Suc m)
  have "growth (k + m) \<le> growth (Suc (k + m))"
    using growth_nonneg [of "k + m"] by simp
  then show ?case using Suc by simp
qed

lemma growth_10: "growth 10 = 2036"
  by (simp add: numeral_eq_Suc)


subsection \<open>The running sum and the mean\<close>

lemma f64_sum_error:
  assumes "\<forall>x \<in> set xs. \<bar>x\<bar> \<le> A"
    and "\<bar>acc - T\<bar> \<le> growth k * (f64_u * A + f64_eta)"
    and "\<bar>T\<bar> \<le> real k * A"
    and "real (k + length xs) * A + growth (k + length xs) * (f64_u * A + f64_eta) \<le> 2 ^ 1022"
    and "0 \<le> A"
  shows "\<exists>t. f64_sum acc xs = Some t
           \<and> \<bar>t - (T + sum_list xs)\<bar> \<le> growth (k + length xs) * (f64_u * A + f64_eta)
           \<and> \<bar>T + sum_list xs\<bar> \<le> real (k + length xs) * A"
  using assms
proof (induction xs arbitrary: acc T k)
  case Nil
  then show ?case by simp
next
  case (Cons x xs)
  define d where "d = f64_u * A + f64_eta"
  have d0: "0 \<le> d" using Cons.prems(5) f64_u_bounds(1) f64_eta_bounds(1) by (simp add: d_def)
  have g0: "0 \<le> growth k" by (rule growth_nonneg)
  have xA: "\<bar>x\<bar> \<le> A" using Cons.prems(1) by simp
  have accT: "\<bar>acc - T\<bar> \<le> growth k * d" using Cons.prems(2) by (simp add: d_def)
  have "real (Suc k) * A = real k * A + A" by (simp add: algebra_simps)
  then have T1: "\<bar>T + x\<bar> \<le> real (Suc k) * A"
    using Cons.prems(3) xA by linarith
  have y: "\<bar>acc + x\<bar> \<le> real (Suc k) * A + growth k * d"
    using T1 accT by linarith
  have gm: "growth k \<le> growth (k + length (x # xs))" by (rule growth_mono)
  have "real (Suc k) * A \<le> real (k + length (x # xs)) * A"
    using Cons.prems(5) by (intro mult_right_mono) simp_all
  moreover have "growth k * d \<le> growth (k + length (x # xs)) * d"
    using gm d0 by (intro mult_right_mono) simp_all
  ultimately have "\<bar>acc + x\<bar> \<le> 2 ^ 1022"
    using y Cons.prems(4) unfolding d_def by linarith
  then obtain r where r: "f64 (acc + x) = Some r"
    and re: "\<bar>r - (acc + x)\<bar> \<le> f64_u * \<bar>acc + x\<bar> + f64_eta"
    using f64_finite by blast
  have "f64_u * \<bar>acc + x\<bar> \<le> f64_u * (real (Suc k) * A + growth k * d)"
    using y f64_u_bounds(1) by (intro mult_left_mono) simp_all
  also have "\<dots> = real (Suc k) * (f64_u * A) + f64_u * (growth k * d)"
    by (simp add: algebra_simps)
  also have "\<dots> \<le> real (Suc k) * (f64_u * A) + 1 * (growth k * d)"
    using f64_u_bounds(2) g0 d0 by (intro add_left_mono mult_right_mono) simp_all
  finally have ue: "f64_u * \<bar>acc + x\<bar> \<le> real (Suc k) * (f64_u * A) + growth k * d" by simp
  have "f64_eta \<le> real (Suc k) * f64_eta"
    using f64_eta_bounds(1) by (simp add: algebra_simps)
  then have rb: "f64_u * \<bar>acc + x\<bar> + f64_eta \<le> real (Suc k) * d + growth k * d"
    using ue by (simp add: d_def algebra_simps)
  have "growth (Suc k) * d = 2 * (growth k * d) + real (Suc k) * d"
    by (simp add: algebra_simps)
  then have "\<bar>r - (T + x)\<bar> \<le> growth (Suc k) * d"
    using re accT rb by linarith
  then have p2: "\<bar>r - (T + x)\<bar> \<le> growth (Suc k) * (f64_u * A + f64_eta)"
    by (simp add: d_def)
  have p4: "real (Suc k + length xs) * A
              + growth (Suc k + length xs) * (f64_u * A + f64_eta) \<le> 2 ^ 1022"
    using Cons.prems(4) by simp
  have p1: "\<forall>x \<in> set xs. \<bar>x\<bar> \<le> A" using Cons.prems(1) by simp
  obtain t where "f64_sum r xs = Some t"
    and "\<bar>t - (T + x + sum_list xs)\<bar> \<le> growth (Suc k + length xs) * (f64_u * A + f64_eta)"
    and "\<bar>T + x + sum_list xs\<bar> \<le> real (Suc k + length xs) * A"
    using Cons.IH [OF p1 p2 T1 p4 Cons.prems(5)] by blast
  then show ?case using r by (simp add: add.assoc)
qed

lemma f64_mean_error:
  assumes "length xs = 10" "\<forall>x \<in> set xs. \<bar>x\<bar> \<le> A" "A \<le> 2 ^ 1000"
  shows "\<exists>m. f64_mean xs = Some m \<and> \<bar>m - np_mean xs\<bar> \<le> A / 2 ^ 44 + 1 / 2 ^ 1066"
proof -
  obtain x rest where xs: "xs = x # rest" using assms(1) by (cases xs) auto
  have len: "length rest = 9" using assms(1) xs by simp
  have A0: "0 \<le> A" using assms(2) xs by force
  define d where "d = f64_u * A + f64_eta"
  have d0: "0 \<le> d" using A0 f64_u_bounds(1) f64_eta_bounds(1) by (simp add: d_def)
  have uA: "2036 * (f64_u * A) \<le> A"
    using f64_u_bounds(3) A0 mult_right_mono [of "2036 * f64_u" 1 A] by simp
  have dA: "2036 * d \<le> A + 2036" using uA f64_eta_bounds(2) by (simp add: d_def)
  have budget: "real (1 + length rest) * A + growth (1 + length rest) * (f64_u * A + f64_eta)
                \<le> 2 ^ 1022"
  proof -
    have "real (1 + length rest) * A + growth (1 + length rest) * (f64_u * A + f64_eta)
          = 10 * A + 2036 * d"
      using len growth_10 by (simp add: d_def)
    also have "\<dots> \<le> 11 * A + 2036" using dA by simp
    also have "\<dots> \<le> 11 * 2 ^ 1000 + 2036" using assms(3) by simp
    also have "\<dots> \<le> (2::real) ^ 1022" by simp
    finally show ?thesis .
  qed
  have p1: "\<forall>y \<in> set rest. \<bar>y\<bar> \<le> A" using assms(2) xs by simp
  have p2: "\<bar>x - x\<bar> \<le> growth 1 * (f64_u * A + f64_eta)" using d0 by (simp add: d_def)
  have p3: "\<bar>x\<bar> \<le> real 1 * A" using assms(2) xs by simp
  obtain t where t: "f64_sum x rest = Some t"
    and te: "\<bar>t - (x + sum_list rest)\<bar> \<le> growth (1 + length rest) * (f64_u * A + f64_eta)"
    and sb: "\<bar>x + sum_list rest\<bar> \<le> real (1 + length rest) * A"
    using f64_sum_error [OF p1 p2 p3 budget A0] by blast
  have te': "\<bar>t - sum_list xs\<bar> \<le> 2036 * d"
    using te len growth_10 by (simp add: xs d_def)
  have sb': "\<bar>sum_list xs\<bar> \<le> 10 * A" using sb len by (simp add: xs)
  have tb: "\<bar>t\<bar> \<le> 10 * A + 2036 * d" using te' sb' by linarith
  have "\<bar>t / 10\<bar> \<le> 2 * A + 2036" using tb dA A0 by simp
  also have "\<dots> \<le> 2 * 2 ^ 1000 + 2036" using assms(3) by simp
  also have "\<dots> \<le> (2::real) ^ 1022" by simp
  finally have "\<bar>t / 10\<bar> \<le> 2 ^ 1022" .
  then obtain m where m: "f64 (t / 10) = Some m"
    and me: "\<bar>m - t / 10\<bar> \<le> f64_u * \<bar>t / 10\<bar> + f64_eta"
    using f64_finite by blast
  have mean: "f64_mean xs = Some m"
    using t m assms(1) by (simp add: f64_mean_def xs)
  have "f64_u * \<bar>t / 10\<bar> \<le> f64_u * (A + 2036 * d / 10)"
    using tb f64_u_bounds(1) by (intro mult_left_mono) simp_all
  also have "\<dots> = f64_u * A + f64_u * (2036 * d / 10)" by (simp add: algebra_simps)
  also have "\<dots> \<le> f64_u * A + 1 * (2036 * d / 10)"
    using f64_u_bounds(2) d0 by (intro add_left_mono mult_right_mono) simp_all
  finally have "f64_u * \<bar>t / 10\<bar> + f64_eta \<le> d + 2036 * d / 10" by (simp add: d_def)
  then have "\<bar>m - t / 10\<bar> \<le> d + 2036 * d / 10" using me by linarith
  moreover have "\<bar>t / 10 - np_mean xs\<bar> \<le> 2036 * d / 10"
    using te' assms(1) by (simp add: np_mean_def diff_divide_distrib [symmetric])
  ultimately have "\<bar>m - np_mean xs\<bar> \<le> d + 2036 * d / 10 + 2036 * d / 10" by linarith
  also have "\<dots> \<le> 512 * d" using d0 by simp
  also have "\<dots> = (512 * f64_u) * A + 512 * f64_eta" by (simp add: d_def algebra_simps)
  also have "\<dots> = (1 / 2 ^ 44) * A + 1 / 2 ^ 1066"
    by (simp only: f64_u_bounds(4) f64_eta_bounds(3))
  also have "\<dots> = A / 2 ^ 44 + 1 / 2 ^ 1066" by simp
  finally show ?thesis using mean by blast
qed


subsection \<open>Ten samples of 0.3\<close>

text \<open>
  The rounding is real. The binary64 number nearest to 0.3 is \<open>5404319552844595 / 2^54\<close>;
  ten rows holding it add up, one rounding after each addition, to
  \<open>6755399441055743 / 2^51\<close> (printed 2.9999999999999996), and the mean is
  \<open>5404319552844594 / 2^54\<close> (printed 0.29999999999999993): one unit in the last place
  below every value in the window.
\<close>

lemma f64_exponent_eq:
  assumes "2 powr (of_int k) \<le> \<bar>x\<bar>" "\<bar>x\<bar> < 2 powr (of_int k + 1)" "- 1022 \<le> k"
  shows "f64_exponent x = k"
proof -
  have pos: "0 < \<bar>x\<bar>" using assms(1) powr_gt_zero [of 2 "of_int k"] by linarith
  have "\<lfloor>log 2 \<bar>x\<bar>\<rfloor> = k"
    using assms(1,2) pos by (simp add: floor_log_eq_powr_iff)
  then show ?thesis using assms(3) by (simp add: f64_exponent_def)
qed

lemma f64_round_eval:
  assumes "2 powr (of_int k) \<le> \<bar>x\<bar>" "\<bar>x\<bar> < 2 powr (of_int k + 1)" "- 1022 \<le> k"
  shows "f64_round x = of_int (rne (x / 2 powr (of_int k - 52))) * 2 powr (of_int k - 52)"
proof -
  have "x \<noteq> 0" using assms(1) powr_gt_zero [of 2 "of_int k"] by auto
  then show ?thesis
    using f64_exponent_eq [OF assms] by (simp add: f64_round_def Let_def)
qed

lemma f64_eval:
  assumes "2 powr (of_int k) \<le> \<bar>x\<bar>" "\<bar>x\<bar> < 2 powr (of_int k + 1)" "- 1022 \<le> k"
    and "rne (x / 2 powr (of_int k - 52)) = n"
    and "\<bar>of_int n * 2 powr (of_int k - 52)\<bar> < (2::real) ^ 1024"
  shows "f64 x = Some (of_int n * 2 powr (of_int k - 52))"
  using f64_round_eval [OF assms(1-3)] assms(4,5) by (simp add: f64_def)

lemma f64_mean_three_tenths:
  "f64_mean (replicate 10 (5404319552844595 / 2 ^ 54)) = Some (5404319552844594 / 2 ^ 54)"
proof -
  define d :: real where "d = 5404319552844595 / 2 ^ 54"
  define s2 :: real where "s2 = 5404319552844595 / 2 ^ 53"
  define s3 :: real where "s3 = 8106479329266892 / 2 ^ 53"
  define s4 :: real where "s4 = 5404319552844595 / 2 ^ 52"
  define s5 :: real where "s5 = 6755399441055744 / 2 ^ 52"
  define s6 :: real where "s6 = 8106479329266893 / 2 ^ 52"
  define s7 :: real where "s7 = 4728779608739021 / 2 ^ 51"
  define s8 :: real where "s8 = 5404319552844595 / 2 ^ 51"
  define s9 :: real where "s9 = 6079859496950169 / 2 ^ 51"
  define s10 :: real where "s10 = 6755399441055743 / 2 ^ 51"
  define m :: real where "m = 5404319552844594 / 2 ^ 54"
  have e2: "f64 (d + d) = Some s2"
    using f64_eval [of "- 1" "d + d" "5404319552844595"]
    by (simp add: d_def s2_def powr_minus_divide rne_def Let_def)
  have e3: "f64 (s2 + d) = Some s3"
    using f64_eval [of "- 1" "s2 + d" "8106479329266892"]
    by (simp add: d_def s2_def s3_def powr_minus_divide rne_def Let_def)
  have e4: "f64 (s3 + d) = Some s4"
    using f64_eval [of "0" "s3 + d" "5404319552844595"]
    by (simp add: d_def s3_def s4_def powr_minus_divide rne_def Let_def)
  have e5: "f64 (s4 + d) = Some s5"
    using f64_eval [of "0" "s4 + d" "6755399441055744"]
    by (simp add: d_def s4_def s5_def powr_minus_divide rne_def Let_def)
  have e6: "f64 (s5 + d) = Some s6"
    using f64_eval [of "0" "s5 + d" "8106479329266893"]
    by (simp add: d_def s5_def s6_def powr_minus_divide rne_def Let_def)
  have e7: "f64 (s6 + d) = Some s7"
    using f64_eval [of "1" "s6 + d" "4728779608739021"]
    by (simp add: d_def s6_def s7_def powr_minus_divide rne_def Let_def)
  have e8: "f64 (s7 + d) = Some s8"
    using f64_eval [of "1" "s7 + d" "5404319552844595"]
    by (simp add: d_def s7_def s8_def powr_minus_divide rne_def Let_def)
  have e9: "f64 (s8 + d) = Some s9"
    using f64_eval [of "1" "s8 + d" "6079859496950169"]
    by (simp add: d_def s8_def s9_def powr_minus_divide rne_def Let_def)
  have e10: "f64 (s9 + d) = Some s10"
    using f64_eval [of "1" "s9 + d" "6755399441055743"]
    by (simp add: d_def s10_def s9_def powr_minus_divide rne_def Let_def)
  have em: "f64 (s10 / 10) = Some m"
    using f64_eval [of "- 2" "s10 / 10" "5404319552844594"]
    by (simp add: s10_def m_def powr_minus_divide rne_def Let_def)
  have "replicate 10 d = [d, d, d, d, d, d, d, d, d, d]"
    by (simp add: numeral_eq_Suc)
  moreover have "f64_sum d [d, d, d, d, d, d, d, d, d] = Some s10"
    by (simp only: f64_sum.simps e2 e3 e4 e5 e6 e7 e8 e9 e10 option.case)
  moreover have "real (length [d, d, d, d, d, d, d, d, d, d]) = 10" by simp
  ultimately have "f64_mean (replicate 10 d) = Some m"
    by (simp only: f64_mean_def list.case option.case em)
  then show ?thesis by (simp only: d_def m_def)
qed


lemma smoothed_f64_three_tenths:
  "x_value_f64 (emg_buffer (observe init (replicate 10 (5404319552844595 / 2 ^ 54, 0))))
   = Some (5404319552844594 / 2 ^ 54)"
proof -
  have "emg_buffer init \<noteq> []" by (simp add: init_def emg_buffer_size_def)
  then have "emg_buffer (observe init (replicate 10 (5404319552844595 / 2 ^ 54, 0)))
             = replicate 10 (5404319552844595 / 2 ^ 54, 0)"
    by (simp add: observe_buffer init_def emg_buffer_size_def)
  then show ?thesis
    by (simp only: x_value_f64_def map_replicate fst_conv f64_mean_three_tenths)
qed

section \<open>The smoothed value and the window\<close>

text \<open>
  C4, amended: for every non-empty sequence of two-channel samples fed to a controller
  whose buffer is the initial ten rows of zeros, with every axis value of the window of
  magnitude at most \<open>A \<le> 2^1000\<close>, the smoothed value that \<open>np.mean\<close> computes in binary64
  is finite and lies between \<open>min - t\<close> and \<open>max + t\<close>. Here \<open>min\<close> and \<open>max\<close> are taken
  over the last \<open>min(N, count)\<close> observed axis values, together with the value 0 of the
  initial rows as long as \<open>count < N = 10\<close>, and \<open>t = A / 2^44 + 1 / 2^1066\<close> covers the
  rounding of the nine additions and the division.
\<close>

theorem smoothed_f64_in_hull:
  assumes "xys \<noteq> []" "emg_buffer s = replicate emg_buffer_size (0, 0)"
    and "\<forall>x \<in> set (last_n emg_buffer_size (map fst xys)). \<bar>x\<bar> \<le> A" "A \<le> 2 ^ 1000"
  shows "\<exists>v. x_value_f64 (emg_buffer (observe s xys)) = Some v
           \<and> Min (set (last_n emg_buffer_size (map fst xys))
                     \<union> (if length xys < emg_buffer_size then {0} else {}))
                 - (A / 2 ^ 44 + 1 / 2 ^ 1066) \<le> v
           \<and> v \<le> Max (set (last_n emg_buffer_size (map fst xys))
                          \<union> (if length xys < emg_buffer_size then {0} else {}))
                 + (A / 2 ^ 44 + 1 / 2 ^ 1066)"
proof -
  define S where "S = set (last_n emg_buffer_size (map fst xys))
                       \<union> (if length xys < emg_buffer_size then {0} else {})"
  define vs where "vs = map fst (emg_buffer (observe s xys))"
  have ne: "emg_buffer s \<noteq> []" using assms(2) by (simp add: emg_buffer_size_def)
  have buf: "emg_buffer (observe s xys)
             = drop (length xys) (replicate emg_buffer_size (0, 0) @ xys)"
    using observe_buffer [OF ne] assms(2) by simp
  have len: "length vs = 10"
    unfolding vs_def buf by (simp add: emg_buffer_size_def)
  then have nonempty: "vs \<noteq> []" by auto
  have sub: "set vs \<subseteq> S"
    unfolding vs_def S_def buf by (rule window_values)
  have fin: "finite S" by (simp add: S_def)
  have "last_n emg_buffer_size (map fst xys) \<noteq> []"
    using assms(1) by (cases xys) (simp_all add: last_n_def emg_buffer_size_def)
  then obtain x0 where "x0 \<in> set (last_n emg_buffer_size (map fst xys))"
    by (cases "last_n emg_buffer_size (map fst xys)") auto
  then have A0: "0 \<le> A" using assms(3) by force
  have "\<forall>x \<in> S. \<bar>x\<bar> \<le> A"
    using assms(3) A0 by (auto simp: S_def split: if_splits)
  then have bound: "\<forall>x \<in> set vs. \<bar>x\<bar> \<le> A" using sub by blast
  obtain m where m: "f64_mean vs = Some m"
    and me: "\<bar>m - np_mean vs\<bar> \<le> A / 2 ^ 44 + 1 / 2 ^ 1066"
    using f64_mean_error [OF len bound assms(4)] by blast
  have hull: "Min S \<le> np_mean vs \<and> np_mean vs \<le> Max S"
    by (rule np_mean_between [OF nonempty sub fin])
  have "Min S - (A / 2 ^ 44 + 1 / 2 ^ 1066) \<le> m \<and> m \<le> Max S + (A / 2 ^ 44 + 1 / 2 ^ 1066)"
    using me hull by linarith
  then show ?thesis
    using m unfolding x_value_f64_def vs_def [symmetric] S_def by blast
qed

theorem smoothed_f64_in_hull_witness:
  "emg_buffer init = replicate emg_buffer_size (0, 0)
   \<and> (\<exists>v. x_value_f64 (emg_buffer (observe init [(1, 0)])) = Some v
          \<and> - (1 / 2 ^ 44 + 1 / 2 ^ 1066) \<le> v
          \<and> v \<le> 1 + (1 / 2 ^ 44 + 1 / 2 ^ 1066))"
proof -
  have a: "[(1::real, 0::real)] \<noteq> []" "emg_buffer init = replicate emg_buffer_size (0, 0)"
    by (simp_all add: init_def)
  have b: "\<forall>x \<in> set (last_n emg_buffer_size (map fst [(1::real, 0::real)])). \<bar>x\<bar> \<le> 1"
    by (simp add: last_n_def emg_buffer_size_def)
  have c: "(1::real) \<le> 2 ^ 1000" by simp
  show ?thesis
    using a smoothed_f64_in_hull [OF a b c] by (simp add: last_n_def emg_buffer_size_def)
qed

section \<open>Scenario A\<close>

text \<open>
  C9. Window size 10, threshold 0.2, speed 30, airborne. After ten consecutive samples
  whose first channel is \<open>-0.5\<close> (whatever the buffer held before and whatever the second
  channel carries) the smoothed value is \<open>-0.5\<close>, the tenth call of \<open>process_joystick\<close>
  returns \<open>("backward", 0.5)\<close>, and the pass of the loop body that processes the tenth
  sample sends \<open>send_rc_control(0, -15, 0, 0)\<close>.
\<close>

theorem scenario_A:
  assumes "length (emg_buffer s) = emg_buffer_size" "length ys = 9"
    "is_flying s" "speed s = 30"
  shows "(let s9 = observe s (map (Pair (- (5 / 10))) ys);
              (s10, result) = process_joystick s9 [- (5 / 10), y]
          in x_value (emg_buffer s10) = - (5 / 10)
           \<and> result = Inr (''backward'', 5 / 10)
           \<and> lsl_iteration s9 (Some [- (5 / 10), y])
               = call (send_rc_control 0 (- 15) 0 0) s10)"
proof -
  define s9 where "s9 = observe s (map (Pair (- (5 / 10) :: real)) ys)"
  define buf where "buf = drop 1 (emg_buffer s9 @ [(- (5 / 10), y)])"
  have ne: "emg_buffer s \<noteq> []" using assms(1) by (auto simp: emg_buffer_size_def)
  have b9: "emg_buffer s9 = drop 9 (emg_buffer s @ map (Pair (- (5 / 10))) ys)"
    unfolding s9_def using observe_buffer [OF ne, of "map (Pair (- (5 / 10))) ys"] assms(2)
    by simp
  have ne9: "emg_buffer s9 \<noteq> []"
    using assms(1) by (simp add: b9 emg_buffer_size_def)
  have "buf = drop 10 (emg_buffer s @ map (Pair (- (5 / 10))) ys @ [(- (5 / 10), y)])"
    unfolding buf_def b9 using assms(1,2) by (simp add: emg_buffer_size_def)
  then have buf: "buf = map (Pair (- (5 / 10))) (ys @ [y])"
    using assms(1) by (simp add: emg_buffer_size_def)
  have "map fst buf = replicate (Suc (length ys)) (- (5 / 10))"
    unfolding buf by (simp add: comp_def map_replicate_const replicate_append_same)
  then have x: "x_value buf = - (5 / 10)"
    unfolding x_value_def using np_mean_replicate [of "Suc (length ys)" "- (5 / 10)"]
    by (simp del: replicate_Suc)
  have pj: "process_joystick s9 [- (5 / 10), y]
            = (s9\<lparr>emg_buffer := buf\<rparr>, Inr (''backward'', 5 / 10))"
    using process_joystick_pair [OF ne9, of "- (5 / 10)" y] x
    by (simp add: buf_def joystick_command_def)
  have f9: "is_flying s9" "speed s9 = 30"
    using observe_fields [of s "map (Pair (- (5 / 10))) ys"] assms(3,4)
    by (simp_all add: s9_def)
  have it: "lsl_iteration s9 (Some [- (5 / 10), y])
            = call (send_rc_control 0 (- 15) 0 0) (s9\<lparr>emg_buffer := buf\<rparr>)"
    using pj f9 by (simp add: lsl_iteration_def process_sample_def dispatch_def py_int_def)
  show ?thesis
    using pj it x unfolding s9_def [symmetric] by (simp add: Let_def)
qed

theorem scenario_A_witness:
  "length (emg_buffer airborne) = emg_buffer_size \<and> is_flying airborne
   \<and> speed airborne = 30
   \<and> (let s9 = observe airborne (map (Pair (- (5 / 10))) (replicate 9 0));
          (s10, result) = process_joystick s9 [- (5 / 10), 0]
      in x_value (emg_buffer s10) = - (5 / 10)
       \<and> result = Inr (''backward'', 5 / 10)
       \<and> lsl_iteration s9 (Some [- (5 / 10), 0])
           = call (send_rc_control 0 (- 15) 0 0) s10)"
proof -
  have a: "length (emg_buffer airborne) = emg_buffer_size"
    "length (replicate 9 (0::real)) = 9" "is_flying airborne" "speed airborne = 30"
    by (simp_all add: airborne_def init_def)
  show ?thesis using a scenario_A [OF a, of 0] by simp
qed

section \<open>The two input shapes of process\_raw\_emg\<close>



end
